theory Spec2Isabelle
  imports Complex_Main
begin

section \<open>Expression trees (src/src/nodes.py)\<close>

text \<open>
  The three node classes \<open>Number\<close>, \<open>Variable\<close> and \<open>BinaryOp\<close> form the tree. A
  \<open>BinaryOp\<close> stores its operator as a Python string; the variable name is a string as
  well. Python's numbers are modelled as exact reals: rounding, overflow and the IEEE
  special values (infinities, NaN) of the float type are outside this model.
\<close>

datatype Node =
    Number real
  | Variable string
  | BinaryOp Node string Node

text \<open>
  A \<open>Token\<close> (src/src/tokenizer.py) is a type tag with an optional value: a number for
  \<open>NUMBER\<close>, a one-character string for \<open>VARIABLE\<close> and \<open>OPERATOR\<close>, nothing for
  the parentheses and the end marker.
\<close>

datatype token =
    NUMBER real
  | VARIABLE string
  | OPERATOR string
  | LPAREN
  | RPAREN
  | EOF

text \<open>
  Every exception the modelled code raises is a value.
  \<^item> \<open>nodes.py\<close>: \<open>UndefinedVariable\<close>, \<open>DivisionByZero\<close> and \<open>UnknownOperator\<close> are its
    three \<open>ValueError\<close>s (told apart by their message), \<open>UnsupportedOperation\<close> is its
    \<open>NotImplementedError\<close>.
  \<^item> Python itself: \<open>ZeroDivisionError\<close> is raised by \<open>/\<close> and \<open>**\<close>, \<open>IndexError\<close> by
    reading a string past its end. \<open>ComplexResult\<close> marks the one place where \<open>**\<close> leaves
    the reals (negative base, fractional exponent: Python returns a complex number and
    goes on); the model stops there instead.
  \<^item> \<open>tokenizer.py\<close>: the \<open>ValueError\<close>s \<open>InvalidCharacter\<close>, \<open>InvalidNumber\<close>,
    \<open>ExpectedLetter\<close> and \<open>InvalidOperator\<close>, each with the text and position its message
    shows.
  \<^item> \<open>parser.py\<close>: the \<open>ValueError\<close>s \<open>NoTokens\<close>, \<open>UnexpectedToken\<close>,
    \<open>ExpectedRParen\<close>, \<open>ExpectedPrimary\<close> and \<open>UnexpectedEndOfInput\<close>.
\<close>

datatype error =
    UndefinedVariable string
  | DivisionByZero
  | UnknownOperator string
  | UnsupportedOperation
  | ZeroDivisionError
  | IndexError
  | ComplexResult
  | InvalidCharacter char nat
  | InvalidNumber string nat
  | ExpectedLetter char nat
  | InvalidOperator char nat
  | NoTokens
  | UnexpectedToken token
  | ExpectedRParen
  | ExpectedPrimary token
  | UnexpectedEndOfInput

subsection \<open>Python's arithmetic on numbers\<close>

text \<open>Python's \<open>a / b\<close>: raises on a zero divisor.\<close>

definition py_truediv :: "real \<Rightarrow> real \<Rightarrow> error + real" where
  "py_truediv a b = (if b = 0 then Inl ZeroDivisionError else Inr (a / b))"

text \<open>
  Python's \<open>a ** b\<close> on floats: anything to the power zero is one (also \<open>0 ** 0\<close>);
  zero to a negative power raises \<open>ZeroDivisionError\<close>; a negative base takes integral
  exponents only, the sign following the exponent's parity.
\<close>

definition py_pow :: "real \<Rightarrow> real \<Rightarrow> error + real" where
  "py_pow a b =
     (if b = 0 then Inr 1
      else if a = 0 then (if b < 0 then Inl ZeroDivisionError else Inr 0)
      else if a < 0 then
        (if b \<noteq> of_int \<lfloor>b\<rfloor> then Inl ComplexResult
         else Inr ((if odd \<lfloor>b\<rfloor> then - 1 else 1) * ((- a) powr b)))
      else Inr (a powr b))"

subsection \<open>evaluate\<close>

text \<open>
  \<open>variables\<close> is the dictionary of bindings; Python's default \<open>None\<close> behaves as the
  empty dictionary does. The left operand is evaluated first, then the right one, and
  only then is the operator looked at.
\<close>

fun evaluate :: "Node \<Rightarrow> (string \<rightharpoonup> real) \<Rightarrow> error + real" where
  "evaluate (Number v) variables = Inr v"
| "evaluate (Variable name) variables =
     (case variables name of
        None \<Rightarrow> Inl (UndefinedVariable name)
      | Some v \<Rightarrow> Inr v)"
| "evaluate (BinaryOp left operator right) variables =
     (case evaluate left variables of
        Inl e \<Rightarrow> Inl e
      | Inr left_val \<Rightarrow>
         (case evaluate right variables of
            Inl e \<Rightarrow> Inl e
          | Inr right_val \<Rightarrow>
              if operator = ''+'' then Inr (left_val + right_val)
              else if operator = ''-'' then Inr (left_val - right_val)
              else if operator = ''*'' then Inr (left_val * right_val)
              else if operator = ''/'' then
                (if right_val = 0 then Inl DivisionByZero
                 else Inr (left_val / right_val))
              else if operator = ''^'' then py_pow left_val right_val
              else Inl (UnknownOperator operator)))"

subsection \<open>differentiate\<close>

fun differentiate :: "Node \<Rightarrow> string \<Rightarrow> error + Node" where
  "differentiate (Number v) variable = Inr (Number 0)"
| "differentiate (Variable name) variable =
     (if name = variable then Inr (Number 1) else Inr (Number 0))"
| "differentiate (BinaryOp left operator right) variable =
     (if operator = ''+'' then
        (case differentiate left variable of
           Inl e \<Rightarrow> Inl e
         | Inr left_diff \<Rightarrow>
            (case differentiate right variable of
               Inl e \<Rightarrow> Inl e
             | Inr right_diff \<Rightarrow> Inr (BinaryOp left_diff ''+'' right_diff)))
      else if operator = ''-'' then
        (case differentiate left variable of
           Inl e \<Rightarrow> Inl e
         | Inr left_diff \<Rightarrow>
            (case differentiate right variable of
               Inl e \<Rightarrow> Inl e
             | Inr right_diff \<Rightarrow> Inr (BinaryOp left_diff ''-'' right_diff)))
      else if operator = ''*'' then
        (case differentiate left variable of
           Inl e \<Rightarrow> Inl e
         | Inr left_diff \<Rightarrow>
            (case differentiate right variable of
               Inl e \<Rightarrow> Inl e
             | Inr right_diff \<Rightarrow>
                 Inr (BinaryOp (BinaryOp left_diff ''*'' right) ''+''
                               (BinaryOp left ''*'' right_diff))))
      else if operator = ''/'' then
        (case differentiate left variable of
           Inl e \<Rightarrow> Inl e
         | Inr left_diff \<Rightarrow>
            (case differentiate right variable of
               Inl e \<Rightarrow> Inl e
             | Inr right_diff \<Rightarrow>
                 Inr (BinaryOp
                        (BinaryOp (BinaryOp left_diff ''*'' right) ''-''
                                  (BinaryOp left ''*'' right_diff))
                        ''/''
                        (BinaryOp right ''^'' (Number 2)))))
      else if operator = ''^'' then
        (case right of
           Number n \<Rightarrow>
            (case differentiate left variable of
               Inl e \<Rightarrow> Inl e
             | Inr f_prime \<Rightarrow>
                 if n = 1 then Inr f_prime
                 else if n = 0 then Inr (Number 0)
                 else Inr (BinaryOp
                             (BinaryOp (Number n) ''*''
                                       (BinaryOp left ''^'' (Number (n - 1))))
                             ''*'' f_prime))
         | _ \<Rightarrow> Inl UnsupportedOperation)
      else Inl (UnknownOperator operator))"

section \<open>The simplifier (src/src/simplifier.py)\<close>

text \<open>\<open>isinstance(node, Number) and node.value == c\<close>\<close>

fun is_number_eq :: "Node \<Rightarrow> real \<Rightarrow> bool" where
  "is_number_eq (Number v) c = (v = c)"
| "is_number_eq _ c = False"

text \<open>
  The last rule of every operator: when both operands are \<open>Number\<close>s the operation is
  computed on their values (and may raise); otherwise the node is rebuilt.
\<close>

fun fold_numbers ::
  "(real \<Rightarrow> real \<Rightarrow> error + real) \<Rightarrow> Node \<Rightarrow> string \<Rightarrow> Node \<Rightarrow> error + Node" where
  "fold_numbers f (Number a) operator (Number b) =
     (case f a b of Inl e \<Rightarrow> Inl e | Inr v \<Rightarrow> Inr (Number v))"
| "fold_numbers f left operator right = Inr (BinaryOp left operator right)"

definition simplify_binary_op :: "Node \<Rightarrow> string \<Rightarrow> Node \<Rightarrow> error + Node" where
  "simplify_binary_op left operator right =
     (if operator = ''+'' then
        (if is_number_eq right 0 then Inr left
         else if is_number_eq left 0 then Inr right
         else fold_numbers (\<lambda>a b. Inr (a + b)) left operator right)
      else if operator = ''-'' then
        (if is_number_eq right 0 then Inr left
         else if is_number_eq left 0 then Inr (BinaryOp (Number 0) ''-'' right)
         else fold_numbers (\<lambda>a b. Inr (a - b)) left operator right)
      else if operator = ''*'' then
        (if is_number_eq left 0 \<or> is_number_eq right 0 then Inr (Number 0)
         else if is_number_eq right 1 then Inr left
         else if is_number_eq left 1 then Inr right
         else fold_numbers (\<lambda>a b. Inr (a * b)) left operator right)
      else if operator = ''/'' then
        (if is_number_eq right 1 then Inr left
         else if is_number_eq left 0 then Inr (Number 0)
         else fold_numbers py_truediv left operator right)
      else if operator = ''^'' then
        (if is_number_eq right 1 then Inr left
         else if is_number_eq right 0 then Inr (Number 1)
         else fold_numbers py_pow left operator right)
      else Inr (BinaryOp left operator right))"

fun simplify :: "Node \<Rightarrow> error + Node" where
  "simplify (Number v) = Inr (Number v)"
| "simplify (Variable name) = Inr (Variable name)"
| "simplify (BinaryOp left operator right) =
     (case simplify left of
        Inl e \<Rightarrow> Inl e
      | Inr left_simplified \<Rightarrow>
         (case simplify right of
            Inl e \<Rightarrow> Inl e
          | Inr right_simplified \<Rightarrow>
              simplify_binary_op left_simplified operator right_simplified))"

section \<open>The tokenizer (src/src/tokenizer.py)\<close>

text \<open>
  The text is a list of characters, each a code point below 256. The three predicates
  are Python's \<open>str.isspace\<close>, \<open>str.isdigit\<close> and \<open>str.isalpha\<close> on that range
  (the superscripts two, three and one count as digits there).
\<close>

definition isspace :: "char \<Rightarrow> bool" where
  "isspace c = (of_char c \<in> {9, 10, 11, 12, 13, 28, 29, 30, 31, 32, 133, 160 :: nat})"

definition isdigit :: "char \<Rightarrow> bool" where
  "isdigit c = (let n = of_char c :: nat in (48 \<le> n \<and> n \<le> 57) \<or> n \<in> {178, 179, 185})"

definition isalpha :: "char \<Rightarrow> bool" where
  "isalpha c =
     (let n = of_char c :: nat
      in (65 \<le> n \<and> n \<le> 90) \<or> (97 \<le> n \<and> n \<le> 122) \<or> n \<in> {170, 181, 186} \<or>
         (192 \<le> n \<and> n \<le> 214) \<or> (216 \<le> n \<and> n \<le> 246) \<or> 248 \<le> n)"

text \<open>\<open>text.strip()\<close>: whitespace is removed at both ends.\<close>

definition strip :: "string \<Rightarrow> string" where
  "strip text = rev (dropWhile isspace (rev (dropWhile isspace text)))"

text \<open>
  Python's \<open>float(s)\<close> on the strings \<open>_parse_number\<close> can hand to it: an optional
  minus sign, then digits and dots. It accepts at most one dot and needs at least one
  digit, all of them ASCII; the value is the decimal fraction itself (no rounding).
\<close>

definition ascii_digit :: "char \<Rightarrow> bool" where
  "ascii_digit c = (48 \<le> (of_char c :: nat) \<and> (of_char c :: nat) \<le> 57)"

definition digits_value :: "string \<Rightarrow> nat" where
  "digits_value ds = foldl (\<lambda>n c. 10 * n + (of_char c - 48)) 0 ds"

definition unsigned_float :: "string \<Rightarrow> real option" where
  "unsigned_float s =
     (let int_part = takeWhile (\<lambda>c. c \<noteq> CHR ''.'') s;
          frac_part = drop 1 (dropWhile (\<lambda>c. c \<noteq> CHR ''.'') s)
      in if int_part @ frac_part = [] \<or> \<not> list_all ascii_digit (int_part @ frac_part)
         then None
         else Some (real (digits_value int_part) +
                    real (digits_value frac_part) / 10 ^ length frac_part))"

fun py_float :: "string \<Rightarrow> real option" where
  "py_float [] = None"
| "py_float (c # cs) =
     (if c = CHR ''-'' then map_option uminus (unsigned_float cs)
      else unsigned_float (c # cs))"

text \<open>
  The three scanning methods take the text from the cursor on and the cursor's index,
  and return the token, the text left and the new index. \<open>_parse_number\<close> first looks
  for a minus sign, then takes digits and dots as long as they come.
\<close>

definition digit_or_dot :: "char \<Rightarrow> bool" where
  "digit_or_dot c = (isdigit c \<or> c = CHR ''.'')"

definition parse_number :: "string \<Rightarrow> nat \<Rightarrow> error + token \<times> string \<times> nat" where
  "parse_number text start_pos =
     (let (sign, text1, pos1) =
            (case text of
               c # cs \<Rightarrow> if c = CHR ''-'' then (''-'', cs, start_pos + 1)
                         else ([], text, start_pos)
             | [] \<Rightarrow> ([], text, start_pos));
          digits = takeWhile digit_or_dot text1;
          number_str = sign @ digits
      in case py_float number_str of
           None \<Rightarrow> Inl (InvalidNumber number_str start_pos)
         | Some v \<Rightarrow>
             Inr (NUMBER v, dropWhile digit_or_dot text1, pos1 + length digits))"

definition parse_variable :: "string \<Rightarrow> nat \<Rightarrow> error + token \<times> string \<times> nat" where
  "parse_variable text current_pos =
     (case text of
        [] \<Rightarrow> Inl IndexError
      | c # cs \<Rightarrow>
          if \<not> isalpha c then Inl (ExpectedLetter c current_pos)
          else Inr (VARIABLE [c], cs, current_pos + 1))"

definition parse_operator :: "string \<Rightarrow> nat \<Rightarrow> error + token \<times> string \<times> nat" where
  "parse_operator text current_pos =
     (case text of
        [] \<Rightarrow> Inl IndexError
      | c # cs \<Rightarrow>
          if c \<notin> set ''+-*/^'' then Inl (InvalidOperator c current_pos)
          else Inr (OPERATOR [c], cs, current_pos + 1))"

text \<open>The main loop of \<open>tokenize\<close>, one character class after the other.\<close>

function tokenize_loop :: "string \<Rightarrow> nat \<Rightarrow> token list \<Rightarrow> error + token list" where
  "tokenize_loop [] current_pos tokens = Inr (tokens @ [EOF])"
| "tokenize_loop (c # cs) current_pos tokens =
     (if isspace c then tokenize_loop cs (current_pos + 1) tokens
      else if isdigit c \<or> c = CHR ''.'' then
        (case parse_number (c # cs) current_pos of
           Inl e \<Rightarrow> Inl e
         | Inr (tok, rest, pos) \<Rightarrow> tokenize_loop rest pos (tokens @ [tok]))
      else if isalpha c then
        (case parse_variable (c # cs) current_pos of
           Inl e \<Rightarrow> Inl e
         | Inr (tok, rest, pos) \<Rightarrow> tokenize_loop rest pos (tokens @ [tok]))
      else if c \<in> set ''+-*/^'' then
        (case parse_operator (c # cs) current_pos of
           Inl e \<Rightarrow> Inl e
         | Inr (tok, rest, pos) \<Rightarrow> tokenize_loop rest pos (tokens @ [tok]))
      else if c = CHR ''('' then tokenize_loop cs (current_pos + 1) (tokens @ [LPAREN])
      else if c = CHR '')'' then tokenize_loop cs (current_pos + 1) (tokens @ [RPAREN])
      else Inl (InvalidCharacter c current_pos))"
  by pat_completeness auto

termination
proof (relation "measure (\<lambda>(text, current_pos, tokens). length text)")
  fix c :: char and cs :: string and current_pos :: nat
    and x :: "token \<times> string \<times> nat" and tok rest_pos rest pos
  assume digit: "isdigit c \<or> c = CHR ''.''"
    and res: "parse_number (c # cs) current_pos = Inr x"
      "(tok, rest_pos) = x" "(rest, pos) = rest_pos"
  have "c \<noteq> CHR ''-''"
    using digit by (auto simp: isdigit_def)
  moreover have "digit_or_dot c"
    using digit by (simp add: digit_or_dot_def)
  ultimately have "rest = dropWhile digit_or_dot cs"
    using res
    by (auto simp: parse_number_def Let_def split: option.splits)
  then have "length rest \<le> length cs"
    by (simp add: length_dropWhile_le)
  then show "((rest, pos, tokens @ [tok]), c # cs, current_pos, tokens)
      \<in> measure (\<lambda>(text, current_pos, tokens). length text)" for tokens
    by simp
qed (auto simp: parse_variable_def parse_operator_def split: if_splits)

definition tokenize :: "string \<Rightarrow> error + token list" where
  "tokenize text = tokenize_loop (strip text) 0 []"

section \<open>The parser (src/src/parser.py)\<close>

text \<open>
  The parser reads a fixed token list through the cursor \<open>current_pos\<close>. \<open>_is_at_end\<close>
  holds past the end of the list and at the \<open>EOF\<close> token. \<open>_match\<close> looks at the
  current token and, where it is the expected one, moves the cursor one step: the
  model's \<open>match\<close> is the test, and the caller moves the cursor.
\<close>

definition is_at_end :: "token list \<Rightarrow> nat \<Rightarrow> bool" where
  "is_at_end tokens current_pos =
     (current_pos \<ge> length tokens \<or> tokens ! current_pos = EOF)"

definition match :: "token list \<Rightarrow> nat \<Rightarrow> token \<Rightarrow> bool" where
  "match tokens current_pos expected =
     (\<not> is_at_end tokens current_pos \<and> tokens ! current_pos = expected)"

text \<open>\<open>_match\<close> with a type only: \<open>NUMBER\<close> and \<open>VARIABLE\<close> tokens of any value.\<close>

definition match_NUMBER :: "token list \<Rightarrow> nat \<Rightarrow> bool" where
  "match_NUMBER tokens current_pos =
     (\<not> is_at_end tokens current_pos \<and>
      (case tokens ! current_pos of NUMBER v \<Rightarrow> True | _ \<Rightarrow> False))"

definition match_VARIABLE :: "token list \<Rightarrow> nat \<Rightarrow> bool" where
  "match_VARIABLE tokens current_pos =
     (\<not> is_at_end tokens current_pos \<and>
      (case tokens ! current_pos of VARIABLE name \<Rightarrow> True | _ \<Rightarrow> False))"

text \<open>\<open>_previous().value\<close> after a match: the value of the token just matched.\<close>

fun number_value :: "token \<Rightarrow> real" where
  "number_value (NUMBER v) = v"
| "number_value _ = 0"

fun string_value :: "token \<Rightarrow> string" where
  "string_value (VARIABLE name) = name"
| "string_value (OPERATOR operator) = operator"
| "string_value _ = []"

text \<open>
  The four mutually recursive methods, with the two \<open>while\<close> loops as functions of
  their own. Each returns the tree and the cursor behind it. Python's call stack is the
  fuel: every call takes one unit, \<open>None\<close> means that the fuel ran out, and an
  exception is \<open>Some (Inl e)\<close>. \<open>and_then\<close> passes a returned value on and lets the
  other two outcomes through.
\<close>

definition and_then ::
  "(error + 'a) option \<Rightarrow> ('a \<Rightarrow> (error + 'b) option) \<Rightarrow> (error + 'b) option" where
  "and_then m f =
     (case m of None \<Rightarrow> None | Some (Inl e) \<Rightarrow> Some (Inl e) | Some (Inr x) \<Rightarrow> f x)"

function parse_addition :: "nat \<Rightarrow> token list \<Rightarrow> nat \<Rightarrow> (error + Node \<times> nat) option"
  and addition_loop :: "nat \<Rightarrow> token list \<Rightarrow> Node \<Rightarrow> nat \<Rightarrow> (error + Node \<times> nat) option"
  and parse_multiplication :: "nat \<Rightarrow> token list \<Rightarrow> nat \<Rightarrow> (error + Node \<times> nat) option"
  and multiplication_loop ::
    "nat \<Rightarrow> token list \<Rightarrow> Node \<Rightarrow> nat \<Rightarrow> (error + Node \<times> nat) option"
  and parse_exponentiation :: "nat \<Rightarrow> token list \<Rightarrow> nat \<Rightarrow> (error + Node \<times> nat) option"
  and parse_primary :: "nat \<Rightarrow> token list \<Rightarrow> nat \<Rightarrow> (error + Node \<times> nat) option"
where
  "parse_addition 0 tokens current_pos = None"
| "parse_addition (Suc fuel) tokens current_pos =
     and_then (parse_multiplication fuel tokens current_pos)
       (\<lambda>(left, pos). addition_loop fuel tokens left pos)"
| "addition_loop 0 tokens left current_pos = None"
| "addition_loop (Suc fuel) tokens left current_pos =
     (if match tokens current_pos (OPERATOR ''+'') \<or>
         match tokens current_pos (OPERATOR ''-'')
      then
        and_then (parse_multiplication fuel tokens (current_pos + 1))
          (\<lambda>(right, pos).
             addition_loop fuel tokens
               (BinaryOp left (string_value (tokens ! current_pos)) right) pos)
      else Some (Inr (left, current_pos)))"
| "parse_multiplication 0 tokens current_pos = None"
| "parse_multiplication (Suc fuel) tokens current_pos =
     and_then (parse_exponentiation fuel tokens current_pos)
       (\<lambda>(left, pos). multiplication_loop fuel tokens left pos)"
| "multiplication_loop 0 tokens left current_pos = None"
| "multiplication_loop (Suc fuel) tokens left current_pos =
     (if match tokens current_pos (OPERATOR ''*'') \<or>
         match tokens current_pos (OPERATOR ''/'')
      then
        and_then (parse_exponentiation fuel tokens (current_pos + 1))
          (\<lambda>(right, pos).
             multiplication_loop fuel tokens
               (BinaryOp left (string_value (tokens ! current_pos)) right) pos)
      else Some (Inr (left, current_pos)))"
| "parse_exponentiation 0 tokens current_pos = None"
| "parse_exponentiation (Suc fuel) tokens current_pos =
     and_then (parse_primary fuel tokens current_pos)
       (\<lambda>(left, pos).
          if match tokens pos (OPERATOR ''^'') then
            and_then (parse_exponentiation fuel tokens (pos + 1))
              (\<lambda>(right, pos'). Some (Inr (BinaryOp left ''^'' right, pos')))
          else Some (Inr (left, pos)))"
| "parse_primary 0 tokens current_pos = None"
| "parse_primary (Suc fuel) tokens current_pos =
     (if match_NUMBER tokens current_pos then
        Some (Inr (Number (number_value (tokens ! current_pos)), current_pos + 1))
      else if match_VARIABLE tokens current_pos then
        Some (Inr (Variable (string_value (tokens ! current_pos)), current_pos + 1))
      else if match tokens current_pos LPAREN then
        and_then (parse_addition fuel tokens (current_pos + 1))
          (\<lambda>(expr, pos).
             if match tokens pos RPAREN then Some (Inr (expr, pos + 1))
             else Some (Inl ExpectedRParen))
      else if is_at_end tokens current_pos then Some (Inl UnexpectedEndOfInput)
      else Some (Inl (ExpectedPrimary (tokens ! current_pos))))"
  by pat_completeness auto

termination
  by (relation "measure (\<lambda>x. case x of
        Inl (Inl (fuel, _)) \<Rightarrow> fuel
      | Inl (Inr (Inl (fuel, _))) \<Rightarrow> fuel
      | Inl (Inr (Inr (fuel, _))) \<Rightarrow> fuel
      | Inr (Inl (fuel, _)) \<Rightarrow> fuel
      | Inr (Inr (Inl (fuel, _))) \<Rightarrow> fuel
      | Inr (Inr (Inr (fuel, _))) \<Rightarrow> fuel)") auto

text \<open>
  \<open>Parser.parse\<close>: an empty token list is refused, and after the expression the cursor
  must be at the end. With \<open>n\<close> tokens no chain of calls is longer than \<open>4 * n + 4\<close>
  (lemma \<open>parse_enough_fuel\<close> below), so that much fuel is given.
\<close>

definition parse :: "token list \<Rightarrow> (error + Node) option" where
  "parse tokens =
     (if tokens = [] then Some (Inl NoTokens)
      else
        (case parse_addition (4 * length tokens + 4) tokens 0 of
           None \<Rightarrow> None
         | Some (Inl e) \<Rightarrow> Some (Inl e)
         | Some (Inr (result, pos)) \<Rightarrow>
             if \<not> is_at_end tokens pos then Some (Inl (UnexpectedToken (tokens ! pos)))
             else Some (Inr result)))"

definition parse_expression :: "string \<Rightarrow> (error + Node) option" where
  "parse_expression text =
     (case tokenize text of
        Inl e \<Rightarrow> Some (Inl e)
      | Inr tokens \<Rightarrow> parse tokens)"

section \<open>Display (\<open>__str__\<close> in src/src/nodes.py)\<close>

text \<open>
  A \<open>Number\<close> shows as Python's \<open>str\<close> of its value. That function belongs to Python,
  not to the repository, and tells an \<open>int\<close> from a \<open>float\<close>, which the real numbers of
  the model do not: it is the parameter \<open>str_value\<close>. A \<open>BinaryOp\<close> puts parentheses
  around each operand that is a \<open>BinaryOp\<close> itself.
\<close>

fun is_BinaryOp :: "Node \<Rightarrow> bool" where
  "is_BinaryOp (BinaryOp left operator right) = True"
| "is_BinaryOp _ = False"

fun to_display_string :: "(real \<Rightarrow> string) \<Rightarrow> Node \<Rightarrow> string" where
  "to_display_string str_value (Number v) = str_value v"
| "to_display_string str_value (Variable name) = name"
| "to_display_string str_value (BinaryOp left operator right) =
     (let left_str = to_display_string str_value left;
          right_str = to_display_string str_value right;
          left_str = (if is_BinaryOp left then ''('' @ left_str @ '')'' else left_str);
          right_str = (if is_BinaryOp right then ''('' @ right_str @ '')'' else right_str)
      in left_str @ '' '' @ operator @ '' '' @ right_str)"

section \<open>Predicates of the statements\<close>

text \<open>
  These say, about a tree, what the statements below talk about: which names occur in
  it, whether it is built from the four arithmetic operators only, whether all its
  operators are among the five that the code knows, and, under given bindings, whether
  one of its \<open>/\<close> nodes has a right operand of value zero or one of its \<open>^\<close> nodes
  has operands on which Python's power does not return a real number.
\<close>

fun is_Number :: "Node \<Rightarrow> bool" where
  "is_Number (Number v) = True"
| "is_Number _ = False"


fun arithmetic_only :: "Node \<Rightarrow> bool" where
  "arithmetic_only (Number v) = True"
| "arithmetic_only (Variable name) = True"
| "arithmetic_only (BinaryOp left operator right) =
     (operator \<in> {''+'', ''-'', ''*'', ''/''} \<and>
      arithmetic_only left \<and> arithmetic_only right)"

fun known_operators :: "Node \<Rightarrow> bool" where
  "known_operators (Number v) = True"
| "known_operators (Variable name) = True"
| "known_operators (BinaryOp left operator right) =
     (operator \<in> {''+'', ''-'', ''*'', ''/'', ''^''} \<and>
      known_operators left \<and> known_operators right)"



text \<open>A token that is not a negative number.\<close>

fun nonnegative_token :: "token \<Rightarrow> bool" where
  "nonnegative_token (NUMBER v) = (0 \<le> v)"
| "nonnegative_token _ = True"

text \<open>
  For the way from a tree to its display string and back: the trees whose leaves the
  tokenizer can read back (\<open>displayable\<close>: a number is displayed as digits and dots that
  \<open>float\<close> reads as the same number, a variable name is one letter, an operator is one
  of the five), the tokens such a tree is displayed as, an operand in its parentheses
  as string and as tokens, and a cursor at which no operator stands.
\<close>

fun displayable :: "(real \<Rightarrow> string) \<Rightarrow> Node \<Rightarrow> bool" where
  "displayable str_value (Number v) =
     (list_all digit_or_dot (str_value v) \<and> py_float (str_value v) = Some v)"
| "displayable str_value (Variable name) =
     (case name of [c] \<Rightarrow> isalpha c | _ \<Rightarrow> False)"
| "displayable str_value (BinaryOp left operator right) =
     (operator \<in> {''+'', ''-'', ''*'', ''/'', ''^''} \<and>
      displayable str_value left \<and> displayable str_value right)"

definition operand_string :: "(real \<Rightarrow> string) \<Rightarrow> Node \<Rightarrow> string" where
  "operand_string sv t =
     (if is_BinaryOp t then ''('' @ to_display_string sv t @ '')'' else to_display_string sv t)"

fun tokens_of :: "Node \<Rightarrow> token list" where
  "tokens_of (Number v) = [NUMBER v]"
| "tokens_of (Variable name) = [VARIABLE name]"
| "tokens_of (BinaryOp left operator right) =
     (if is_BinaryOp left then LPAREN # tokens_of left @ [RPAREN] else tokens_of left) @
     [OPERATOR operator] @
     (if is_BinaryOp right then LPAREN # tokens_of right @ [RPAREN] else tokens_of right)"

definition operand_tokens :: "Node \<Rightarrow> token list" where
  "operand_tokens t = (if is_BinaryOp t then LPAREN # tokens_of t @ [RPAREN] else tokens_of t)"

definition stops :: "token list \<Rightarrow> nat \<Rightarrow> bool" where
  "stops ts q = (\<forall>op. \<not> match ts q (OPERATOR op))"

text \<open>
  Python's \<open>str\<close> on four floats, for the examples: \<open>-2.0\<close>, \<open>2.0\<close>, \<open>0.5\<close> and
  \<open>1e16\<close>, which Python displays with an exponent. Other numbers are not in the table.
\<close>

definition python_str_sample :: "real \<Rightarrow> string" where
  "python_str_sample v =
     (if v = - 2 then ''-2.0''
      else if v = 2 then ''2.0''
      else if v = 1 / 2 then ''0.5''
      else if v = 10 ^ 16 then ''1e+16''
      else [])"

section \<open>Properties of the simplifier\<close>














text \<open>
  Claim C7. The subtraction rules: two numeric constants are folded into their
  difference, \<open>x - 0\<close> becomes \<open>x\<close>, and \<open>0 - x\<close> stays a node. The code does not fold
  when the left constant is zero and the right one is not: the rule for \<open>0 - x\<close> comes
  before the folding rule and returns the node \<open>0 - 5\<close> for the constants 0 and 5.
\<close>

theorem simplify_zero_minus_constant:
  "simplify (BinaryOp (Number 0) ''-'' (Number 5)) =
     Inr (BinaryOp (Number 0) ''-'' (Number 5))"
  by (simp add: simplify_binary_op_def)

text \<open>The other parts of the subtraction rules hold as the claim has them.\<close>

lemma simplify_subtraction_rules:
  "(a \<noteq> 0 \<or> b = 0 \<longrightarrow>
      simplify (BinaryOp (Number a) ''-'' (Number b)) = Inr (Number (a - b))) \<and>
   (simplify x = Inr x' \<longrightarrow> simplify (BinaryOp x ''-'' (Number 0)) = Inr x') \<and>
   (simplify x = Inr x' \<and> \<not> is_Number x' \<longrightarrow>
      simplify (BinaryOp (Number 0) ''-'' x) = Inr (BinaryOp (Number 0) ''-'' x'))"
  by (cases x') (auto simp: simplify_binary_op_def)

section \<open>Properties of evaluate\<close>










section \<open>Properties of differentiate\<close>

lemma is_Number_iff: "is_Number r \<longleftrightarrow> (\<exists>n. r = Number n)"
  by (cases r) auto

lemma differentiate_arithmetic_only:
  "arithmetic_only t \<Longrightarrow> \<exists>d. differentiate t v = Inr d"
  by (induction t) auto

text \<open>
  Claim C4, as amended. Differentiating \<open>f ^ r\<close> succeeds if and only if \<open>r\<close> is a
  \<open>Number\<close> literal and differentiating \<open>f\<close> succeeds. With \<open>r = Number n\<close> and \<open>f'\<close> the
  derivative of \<open>f\<close>, the result is \<open>f'\<close> for \<open>n = 1\<close>, \<open>Number 0\<close> for \<open>n = 0\<close>, and
  \<open>(Number n * (f ^ Number (n - 1))) * f'\<close> otherwise. When \<open>r\<close> is not a \<open>Number\<close>
  literal it fails with \<open>UnsupportedOperation\<close>. \<open>differentiate\<close> succeeds on every tree
  built from \<open>Number\<close>, \<open>Variable\<close> and the operators \<open>+\<close>, \<open>-\<close>, \<open>*\<close>, \<open>/\<close> only.
\<close>

theorem differentiate_power:
  "((\<exists>d. differentiate (BinaryOp f ''^'' r) v = Inr d) \<longleftrightarrow>
      is_Number r \<and> (\<exists>f'. differentiate f v = Inr f')) \<and>
   (differentiate f v = Inr f' \<longrightarrow>
      differentiate (BinaryOp f ''^'' (Number n)) v =
        Inr (if n = 1 then f'
             else if n = 0 then Number 0
             else BinaryOp (BinaryOp (Number n) ''*'' (BinaryOp f ''^'' (Number (n - 1))))
                    ''*'' f')) \<and>
   (\<not> is_Number r \<longrightarrow> differentiate (BinaryOp f ''^'' r) v = Inl UnsupportedOperation) \<and>
   (arithmetic_only t \<longrightarrow> (\<exists>d. differentiate t v = Inr d))"
  by (cases r) (auto simp: differentiate_arithmetic_only split: sum.splits)

theorem differentiate_power_witness:
  "differentiate (BinaryOp (Variable ''x'') ''^'' (Number 3)) ''x'' =
     Inr (BinaryOp (BinaryOp (Number 3) ''*'' (BinaryOp (Variable ''x'') ''^'' (Number 2)))
            ''*'' (Number 1)) \<and>
   differentiate (BinaryOp (Variable ''x'') ''^'' (Variable ''y'')) ''x'' =
     Inl UnsupportedOperation \<and>
   differentiate (BinaryOp (Variable ''x'') ''*'' (Number 2)) ''x'' =
     Inr (BinaryOp (BinaryOp (Number 1) ''*'' (Number 2)) ''+''
            (BinaryOp (Variable ''x'') ''*'' (Number 0)))"
  using
    differentiate_power [of "Variable ''x''" "Number 3" "''x''" "Number 1" 3
      "BinaryOp (Variable ''x'') ''*'' (Number 2)"]
    differentiate_power [of "Variable ''x''" "Variable ''y''" "''x''" "Number 1" 3
      "BinaryOp (Variable ''x'') ''*'' (Number 2)"]
  by simp

text \<open>
  The claim as it stands makes a \<open>Number\<close> exponent enough. The base is differentiated
  too, and its failure is the failure of the whole: \<open>(x ^ y) ^ 2\<close> has the \<open>Number\<close>
  exponent 2 and fails.
\<close>

theorem differentiate_power_counterexample:
  "is_Number (Number 2) \<and>
   differentiate
     (BinaryOp (BinaryOp (Variable ''x'') ''^'' (Variable ''y'')) ''^'' (Number 2)) ''x''
     = Inl UnsupportedOperation"
  by simp

section \<open>Properties of the tokenizer\<close>

lemmas tokenizer_defs =
  tokenize_def strip_def isspace_def isdigit_def isalpha_def digit_or_dot_def
  parse_number_def parse_variable_def parse_operator_def
  unsigned_float_def ascii_digit_def digits_value_def

text \<open>
  Claim C6. A minus sign right before a digit or a dot is taken as the sign of the
  number, so that the text \<open>-2\<close> gives one \<open>NUMBER\<close> token of value \<open>-2\<close> and the end
  marker. The code gives three tokens: the operator \<open>-\<close>, the number \<open>2\<close> and the end
  marker. The main loop sends a minus sign to \<open>_parse_operator\<close>, and the sign branch
  of \<open>_parse_number\<close> is never reached.
\<close>

theorem tokenize_minus_two: "tokenize ''-2'' = Inr [OPERATOR ''-'', NUMBER 2, EOF]"
  by (simp add: tokenizer_defs)

text \<open>More generally, no text is tokenized into a negative number.\<close>

lemma unsigned_float_nonneg: "unsigned_float s = Some v \<Longrightarrow> 0 \<le> v"
  by (auto simp: unsigned_float_def Let_def split: if_splits)

lemma parse_number_nonneg:
  assumes "isdigit c \<or> c = CHR ''.''"
    and "parse_number (c # cs) pos = Inr (tok, rest, pos')"
  shows "nonnegative_token tok"
proof -
  have "c \<noteq> CHR ''-''" using assms(1) by (auto simp: isdigit_def)
  then show ?thesis using assms(2)
    by (auto simp: parse_number_def Let_def split: option.splits if_splits
        dest: unsigned_float_nonneg)
qed

lemma tokenize_loop_nonneg:
  "tokenize_loop s pos tokens = Inr result \<Longrightarrow> list_all nonnegative_token tokens \<Longrightarrow>
   list_all nonnegative_token result"
proof (induction s pos tokens rule: tokenize_loop.induct)
  case (1 current_pos tokens)
  then show ?case by auto
next
  case (2 c cs current_pos tokens)
  show ?case
  proof (cases "isspace c")
    case True
    then show ?thesis using 2 by simp
  next
    case sp: False
    show ?thesis
    proof (cases "isdigit c \<or> c = CHR ''.''")
      case True
      then obtain tok rest pos'
        where pn: "parse_number (c # cs) current_pos = Inr (tok, rest, pos')"
          and res: "tokenize_loop rest pos' (tokens @ [tok]) = Inr result"
        using "2.prems"(1) sp by (auto split: sum.splits)
      have "nonnegative_token tok" using parse_number_nonneg[OF True pn] .
      then show ?thesis
        using "2.IH"(2)[OF sp True pn refl refl res] "2.prems"(2) by simp
    next
      case dg: False
      show ?thesis
      proof (cases "isalpha c")
        case True
        then obtain tok rest pos'
          where pn: "parse_variable (c # cs) current_pos = Inr (tok, rest, pos')"
            and res: "tokenize_loop rest pos' (tokens @ [tok]) = Inr result"
          using "2.prems"(1) sp dg by (auto split: sum.splits)
        have "nonnegative_token tok"
          using pn by (auto simp: parse_variable_def split: if_splits)
        then show ?thesis
          using "2.IH"(3)[OF sp dg True pn refl refl res] "2.prems"(2) by simp
      next
        case al: False
        show ?thesis
        proof (cases "c \<in> set ''+-*/^''")
          case True
          then obtain tok rest pos'
            where pn: "parse_operator (c # cs) current_pos = Inr (tok, rest, pos')"
              and res: "tokenize_loop rest pos' (tokens @ [tok]) = Inr result"
            using "2.prems"(1) sp dg al by (auto split: sum.splits)
          have "nonnegative_token tok"
            using pn by (auto simp: parse_operator_def split: if_splits)
          then show ?thesis
            using "2.IH"(4)[OF sp dg al True pn refl refl res] "2.prems"(2) by simp
        next
          case op: False
          show ?thesis
          proof (cases "c = CHR ''(''")
            case True
            then show ?thesis
              using "2.IH"(5)[OF sp dg al op True] "2.prems" sp dg al op by simp
          next
            case lp: False
            show ?thesis
            proof (cases "c = CHR '')''")
              case True
              then show ?thesis
                using "2.IH"(6)[OF sp dg al op lp True] "2.prems" sp dg al op lp by simp
            next
              case False
              then show ?thesis using "2.prems"(1) sp dg al op lp by simp
            qed
          qed
        qed
      qed
    qed
  qed
qed

lemma tokenize_never_negative:
  "tokenize s = Inr tokens \<Longrightarrow> NUMBER v \<in> set tokens \<Longrightarrow> 0 \<le> v"
  using tokenize_loop_nonneg [of "strip s" 0 "[]" tokens]
  by (auto simp: tokenize_def list_all_iff)

section \<open>Properties of the parser\<close>

lemmas parser_defs =
  parse_expression_def parse_def and_then_def
  match_def match_NUMBER_def match_VARIABLE_def is_at_end_def

lemma and_then_Some_Inr:
  "and_then m f = Some (Inr y) \<longleftrightarrow> (\<exists>x. m = Some (Inr x) \<and> f x = Some (Inr y))"
  by (auto simp: and_then_def split: option.splits sum.splits)

lemma and_then_None:
  "and_then m f = None \<longleftrightarrow> m = None \<or> (\<exists>x. m = Some (Inr x) \<and> f x = None)"
  by (auto simp: and_then_def split: option.splits sum.splits)

lemma match_less: "match ts p tok \<Longrightarrow> p < length ts"
  by (simp add: match_def is_at_end_def)

lemma match_NUMBER_less: "match_NUMBER ts p \<Longrightarrow> p < length ts"
  by (simp add: match_NUMBER_def is_at_end_def)

lemma match_VARIABLE_less: "match_VARIABLE ts p \<Longrightarrow> p < length ts"
  by (simp add: match_VARIABLE_def is_at_end_def)

text \<open>
  Each of the four methods moves the cursor forward when it returns a tree, and never
  past the end of the token list; the two loops never move it back.
\<close>

lemma parse_progress:
  "(\<forall>p t p'. parse_addition f ts p = Some (Inr (t, p')) \<longrightarrow> p < p' \<and> p' \<le> length ts) \<and>
   (\<forall>l p t p'. addition_loop f ts l p = Some (Inr (t, p')) \<longrightarrow>
       p \<le> p' \<and> (p \<le> length ts \<longrightarrow> p' \<le> length ts)) \<and>
   (\<forall>p t p'. parse_multiplication f ts p = Some (Inr (t, p')) \<longrightarrow>
       p < p' \<and> p' \<le> length ts) \<and>
   (\<forall>l p t p'. multiplication_loop f ts l p = Some (Inr (t, p')) \<longrightarrow>
       p \<le> p' \<and> (p \<le> length ts \<longrightarrow> p' \<le> length ts)) \<and>
   (\<forall>p t p'. parse_exponentiation f ts p = Some (Inr (t, p')) \<longrightarrow>
       p < p' \<and> p' \<le> length ts) \<and>
   (\<forall>p t p'. parse_primary f ts p = Some (Inr (t, p')) \<longrightarrow> p < p' \<and> p' \<le> length ts)"
proof (induction f)
  case 0
  show ?case by simp
next
  case (Suc f)
  have A: "parse_addition f ts p = Some (Inr (t, p')) \<Longrightarrow> p < p' \<and> p' \<le> length ts"
    for p t p'
    using Suc by blast
  have ALoop: "addition_loop f ts l p = Some (Inr (t, p')) \<Longrightarrow>
       p \<le> p' \<and> (p \<le> length ts \<longrightarrow> p' \<le> length ts)" for l p t p'
    using Suc by blast
  have M: "parse_multiplication f ts p = Some (Inr (t, p')) \<Longrightarrow> p < p' \<and> p' \<le> length ts"
    for p t p'
    using Suc by blast
  have MLoop: "multiplication_loop f ts l p = Some (Inr (t, p')) \<Longrightarrow>
       p \<le> p' \<and> (p \<le> length ts \<longrightarrow> p' \<le> length ts)" for l p t p'
    using Suc by blast
  have E: "parse_exponentiation f ts p = Some (Inr (t, p')) \<Longrightarrow> p < p' \<and> p' \<le> length ts"
    for p t p'
    using Suc by blast
  have P: "parse_primary f ts p = Some (Inr (t, p')) \<Longrightarrow> p < p' \<and> p' \<le> length ts"
    for p t p'
    using Suc by blast
  have 1: "parse_addition (Suc f) ts p = Some (Inr (t, p')) \<longrightarrow>
       p < p' \<and> p' \<le> length ts" for p t p'
    by (auto simp: and_then_Some_Inr dest!: M ALoop)
  have 2: "addition_loop (Suc f) ts l p = Some (Inr (t, p')) \<longrightarrow>
       p \<le> p' \<and> (p \<le> length ts \<longrightarrow> p' \<le> length ts)" for l p t p'
    by (auto simp: and_then_Some_Inr split: if_splits dest!: M ALoop)
  have 3: "parse_multiplication (Suc f) ts p = Some (Inr (t, p')) \<longrightarrow>
       p < p' \<and> p' \<le> length ts" for p t p'
    by (auto simp: and_then_Some_Inr dest!: E MLoop)
  have 4: "multiplication_loop (Suc f) ts l p = Some (Inr (t, p')) \<longrightarrow>
       p \<le> p' \<and> (p \<le> length ts \<longrightarrow> p' \<le> length ts)" for l p t p'
    by (auto simp: and_then_Some_Inr split: if_splits dest!: E MLoop)
  have 5: "parse_exponentiation (Suc f) ts p = Some (Inr (t, p')) \<longrightarrow>
       p < p' \<and> p' \<le> length ts" for p t p'
    by (auto simp: and_then_Some_Inr split: if_splits dest!: E P)
  have 6: "parse_primary (Suc f) ts p = Some (Inr (t, p')) \<longrightarrow>
       p < p' \<and> p' \<le> length ts" for p t p'
    by (auto simp: and_then_Some_Inr split: if_splits dest!: A
        dest: match_less match_NUMBER_less match_VARIABLE_less)
  show ?case using 1 2 3 4 5 6 by blast
qed

lemmas parse_multiplication_progress =
  parse_progress [THEN conjunct2, THEN conjunct2, THEN conjunct1, rule_format]

lemmas parse_exponentiation_progress =
  parse_progress [THEN conjunct2, THEN conjunct2, THEN conjunct2, THEN conjunct2,
    THEN conjunct1, rule_format]

lemmas parse_primary_progress =
  parse_progress [THEN conjunct2, THEN conjunct2, THEN conjunct2, THEN conjunct2,
    THEN conjunct2, rule_format]

text \<open>
  With \<open>m\<close> tokens from the cursor on, \<open>4 * m + 4\<close> units of fuel are enough for
  \<open>_parse_addition\<close>, and fewer for the methods it calls.
\<close>

lemma parse_fuel:
  "(\<forall>p. 4 * (length ts - p) + 4 \<le> f \<longrightarrow> parse_addition f ts p \<noteq> None) \<and>
   (\<forall>l p. 4 * (length ts - p) + 1 \<le> f \<longrightarrow> addition_loop f ts l p \<noteq> None) \<and>
   (\<forall>p. 4 * (length ts - p) + 3 \<le> f \<longrightarrow> parse_multiplication f ts p \<noteq> None) \<and>
   (\<forall>l p. 4 * (length ts - p) + 1 \<le> f \<longrightarrow> multiplication_loop f ts l p \<noteq> None) \<and>
   (\<forall>p. 4 * (length ts - p) + 2 \<le> f \<longrightarrow> parse_exponentiation f ts p \<noteq> None) \<and>
   (\<forall>p. 4 * (length ts - p) + 1 \<le> f \<longrightarrow> parse_primary f ts p \<noteq> None)"
proof (induction f)
  case 0
  show ?case by simp
next
  case (Suc f)
  have A: "4 * (length ts - p) + 4 \<le> f \<Longrightarrow> parse_addition f ts p \<noteq> None" for p
    using Suc by blast
  have ALoop: "4 * (length ts - p) + 1 \<le> f \<Longrightarrow> addition_loop f ts l p \<noteq> None" for l p
    using Suc by blast
  have M: "4 * (length ts - p) + 3 \<le> f \<Longrightarrow> parse_multiplication f ts p \<noteq> None" for p
    using Suc by blast
  have MLoop: "4 * (length ts - p) + 1 \<le> f \<Longrightarrow> multiplication_loop f ts l p \<noteq> None"
    for l p
    using Suc by blast
  have E: "4 * (length ts - p) + 2 \<le> f \<Longrightarrow> parse_exponentiation f ts p \<noteq> None" for p
    using Suc by blast
  have P: "4 * (length ts - p) + 1 \<le> f \<Longrightarrow> parse_primary f ts p \<noteq> None" for p
    using Suc by blast
  have 1: "parse_addition (Suc f) ts p \<noteq> None" if "4 * (length ts - p) + 4 \<le> Suc f" for p
  proof -
    have "parse_multiplication f ts p \<noteq> None" using that by (intro M) simp
    moreover have "addition_loop f ts l p1 \<noteq> None"
      if "parse_multiplication f ts p = Some (Inr (l, p1))" for l p1
      using parse_multiplication_progress[OF that] \<open>4 * (length ts - p) + 4 \<le> Suc f\<close>
      by (intro ALoop) linarith
    ultimately show ?thesis by (auto simp: and_then_None)
  qed
  have 2: "addition_loop (Suc f) ts l p \<noteq> None" if "4 * (length ts - p) + 1 \<le> Suc f"
    for l p
  proof (cases "match ts p (OPERATOR ''+'') \<or> match ts p (OPERATOR ''-'')")
    case True
    then have lt: "p < length ts" by (auto dest: match_less)
    have "parse_multiplication f ts (p + 1) \<noteq> None"
      using that lt by (intro M) linarith
    moreover have "addition_loop f ts l' p1 \<noteq> None"
      if "parse_multiplication f ts (p + 1) = Some (Inr (r, p1))" for l' r p1
      using parse_multiplication_progress[OF that] \<open>4 * (length ts - p) + 1 \<le> Suc f\<close>
      by (intro ALoop) linarith
    ultimately show ?thesis using True by (auto simp: and_then_None)
  next
    case False
    then show ?thesis by simp
  qed
  have 3: "parse_multiplication (Suc f) ts p \<noteq> None"
    if "4 * (length ts - p) + 3 \<le> Suc f" for p
  proof -
    have "parse_exponentiation f ts p \<noteq> None" using that by (intro E) simp
    moreover have "multiplication_loop f ts l p1 \<noteq> None"
      if "parse_exponentiation f ts p = Some (Inr (l, p1))" for l p1
      using parse_exponentiation_progress[OF that] \<open>4 * (length ts - p) + 3 \<le> Suc f\<close>
      by (intro MLoop) linarith
    ultimately show ?thesis by (auto simp: and_then_None)
  qed
  have 4: "multiplication_loop (Suc f) ts l p \<noteq> None"
    if "4 * (length ts - p) + 1 \<le> Suc f" for l p
  proof (cases "match ts p (OPERATOR ''*'') \<or> match ts p (OPERATOR ''/'')")
    case True
    then have lt: "p < length ts" by (auto dest: match_less)
    have "parse_exponentiation f ts (p + 1) \<noteq> None"
      using that lt by (intro E) linarith
    moreover have "multiplication_loop f ts l' p1 \<noteq> None"
      if "parse_exponentiation f ts (p + 1) = Some (Inr (r, p1))" for l' r p1
      using parse_exponentiation_progress[OF that] \<open>4 * (length ts - p) + 1 \<le> Suc f\<close>
      by (intro MLoop) linarith
    ultimately show ?thesis using True by (auto simp: and_then_None)
  next
    case False
    then show ?thesis by simp
  qed
  have 5: "parse_exponentiation (Suc f) ts p \<noteq> None"
    if "4 * (length ts - p) + 2 \<le> Suc f" for p
  proof -
    have "parse_primary f ts p \<noteq> None" using that by (intro P) simp
    moreover have "parse_exponentiation f ts (p1 + 1) \<noteq> None"
      if "parse_primary f ts p = Some (Inr (l, p1))" for l p1
      using parse_primary_progress[OF that] \<open>4 * (length ts - p) + 2 \<le> Suc f\<close>
      by (intro E) linarith
    ultimately show ?thesis
      by (auto simp: and_then_def split: option.splits sum.splits prod.splits)
  qed
  have 6: "parse_primary (Suc f) ts p \<noteq> None" if "4 * (length ts - p) + 1 \<le> Suc f" for p
  proof (cases "match ts p LPAREN")
    case True
    then have lt: "p < length ts" by (auto dest: match_less)
    have "parse_addition f ts (p + 1) \<noteq> None" using that lt by (intro A) linarith
    then show ?thesis
      by (auto simp: and_then_def split: option.splits sum.splits prod.splits)
  next
    case False
    then show ?thesis by simp
  qed
  show ?case using 1 2 3 4 5 6 by blast
qed

text \<open>So \<open>parse\<close> and \<open>parse_expression\<close> always return: a tree or an exception.\<close>

lemma parse_enough_fuel: "parse tokens \<noteq> None"
proof -
  have "parse_addition (4 * length tokens + 4) tokens 0 \<noteq> None"
    using parse_fuel [of tokens "4 * length tokens + 4"] by simp
  then show ?thesis
    by (auto simp: parse_def split: option.splits sum.splits)
qed

lemma parse_expression_returns: "parse_expression s \<noteq> None"
  using parse_enough_fuel by (auto simp: parse_expression_def split: sum.splits)

text \<open>
  Claim C3. Precedence and associativity: \<open>2*3 + 4*5\<close> is parsed as \<open>(2*3) + (4*5)\<close>
  and evaluates to 26; \<open>2^3^2\<close> is parsed as \<open>2^(3^2)\<close> and evaluates to 512; the
  operators of one level fold to the left, as \<open>7-2+1\<close> and \<open>8/4*2\<close> show.
\<close>

theorem parser_precedence:
  "parse_expression ''2*3 + 4*5'' =
     Some (Inr (BinaryOp (BinaryOp (Number 2) ''*'' (Number 3)) ''+''
                  (BinaryOp (Number 4) ''*'' (Number 5)))) \<and>
   evaluate (BinaryOp (BinaryOp (Number 2) ''*'' (Number 3)) ''+''
                  (BinaryOp (Number 4) ''*'' (Number 5))) variables = Inr 26 \<and>
   parse_expression ''2^3^2'' =
     Some (Inr (BinaryOp (Number 2) ''^'' (BinaryOp (Number 3) ''^'' (Number 2)))) \<and>
   evaluate (BinaryOp (Number 2) ''^'' (BinaryOp (Number 3) ''^'' (Number 2))) variables
     = Inr 512 \<and>
   parse_expression ''7-2+1'' =
     Some (Inr (BinaryOp (BinaryOp (Number 7) ''-'' (Number 2)) ''+'' (Number 1))) \<and>
   parse_expression ''8/4*2'' =
     Some (Inr (BinaryOp (BinaryOp (Number 8) ''/'' (Number 4)) ''*'' (Number 2)))"
proof (intro conjI)
  show "parse_expression ''2*3 + 4*5'' =
     Some (Inr (BinaryOp (BinaryOp (Number 2) ''*'' (Number 3)) ''+''
                  (BinaryOp (Number 4) ''*'' (Number 5))))"
    by (simp add: tokenizer_defs parser_defs numeral_eq_Suc)
  show "parse_expression ''2^3^2'' =
     Some (Inr (BinaryOp (Number 2) ''^'' (BinaryOp (Number 3) ''^'' (Number 2))))"
    by (simp add: tokenizer_defs parser_defs numeral_eq_Suc)
  show "parse_expression ''7-2+1'' =
     Some (Inr (BinaryOp (BinaryOp (Number 7) ''-'' (Number 2)) ''+'' (Number 1)))"
    by (simp add: tokenizer_defs parser_defs numeral_eq_Suc)
  show "parse_expression ''8/4*2'' =
     Some (Inr (BinaryOp (BinaryOp (Number 8) ''/'' (Number 4)) ''*'' (Number 2)))"
    by (simp add: tokenizer_defs parser_defs numeral_eq_Suc)
qed (simp_all add: py_pow_def)

text \<open>
  Claim C2. \<open>simplify\<close> returns a tree for every tree, also for the parse of \<open>1/0\<close>.
  The code parses \<open>1/0\<close> into the division of the constants 1 and 0, and \<open>simplify\<close>
  then computes \<open>1 / 0\<close> to fold them, which raises Python's \<open>ZeroDivisionError\<close>.
\<close>

theorem simplify_one_over_zero:
  "parse_expression ''1/0'' = Some (Inr (BinaryOp (Number 1) ''/'' (Number 0))) \<and>
   simplify (BinaryOp (Number 1) ''/'' (Number 0)) = Inl ZeroDivisionError"
proof (intro conjI)
  show "parse_expression ''1/0'' = Some (Inr (BinaryOp (Number 1) ''/'' (Number 0)))"
    by (simp add: tokenizer_defs parser_defs numeral_eq_Suc)
  show "simplify (BinaryOp (Number 1) ''/'' (Number 0)) = Inl ZeroDivisionError"
    by (simp add: simplify_binary_op_def py_truediv_def)
qed

section \<open>From a tree to its display string and back\<close>

text \<open>
  Three trees that are not read back. \<open>x + (-2)\<close> is displayed as \<open>x + -2.0\<close>: the
  tokenizer makes an operator of the minus sign, and the parser raises at it. The
  number \<open>1e16\<close> is displayed as \<open>1e+16\<close>: the tokenizer knows no exponent and reads a
  number, the variable \<open>e\<close>, an operator and a number. The variable \<open>_\<close> is not a
  letter: the tokenizer raises at it.
\<close>

theorem display_parse_round_trip_counterexample:
  "parse_expression
     (to_display_string python_str_sample (BinaryOp (Variable ''x'') ''+'' (Number (- 2))))
     = Some (Inl (ExpectedPrimary (OPERATOR ''-''))) \<and>
   parse_expression (to_display_string python_str_sample (Number (10 ^ 16)))
     = Some (Inl (UnexpectedToken (VARIABLE ''e''))) \<and>
   parse_expression (to_display_string python_str_sample (Variable ''_''))
     = Some (Inl (InvalidCharacter CHR ''_'' 0))"
proof (intro conjI)
  show "parse_expression
     (to_display_string python_str_sample (BinaryOp (Variable ''x'') ''+'' (Number (- 2))))
     = Some (Inl (ExpectedPrimary (OPERATOR ''-'')))"
    by (simp add: python_str_sample_def tokenizer_defs parser_defs numeral_eq_Suc)
  show "parse_expression (to_display_string python_str_sample (Number (10 ^ 16)))
     = Some (Inl (UnexpectedToken (VARIABLE ''e'')))"
    by (simp add: python_str_sample_def tokenizer_defs parser_defs numeral_eq_Suc)
  show "parse_expression (to_display_string python_str_sample (Variable ''_''))
     = Some (Inl (InvalidCharacter CHR ''_'' 0))"
    by (simp add: python_str_sample_def tokenizer_defs parser_defs)
qed

subsection \<open>More fuel, same result\<close>

lemma and_then_mono:
  assumes "and_then m k = Some r"
    and "\<And>x. m = Some x \<Longrightarrow> m' = Some x"
    and "\<And>x y. k x = Some y \<Longrightarrow> k' x = Some y"
  shows "and_then m' k' = Some r"
  using assms by (auto simp: and_then_def split: option.splits sum.splits)

lemma parse_fuel_mono:
  "\<forall>f'\<ge>f.
   (\<forall>p r. parse_addition f ts p = Some r \<longrightarrow> parse_addition f' ts p = Some r) \<and>
   (\<forall>l p r. addition_loop f ts l p = Some r \<longrightarrow> addition_loop f' ts l p = Some r) \<and>
   (\<forall>p r. parse_multiplication f ts p = Some r \<longrightarrow> parse_multiplication f' ts p = Some r) \<and>
   (\<forall>l p r. multiplication_loop f ts l p = Some r \<longrightarrow>
      multiplication_loop f' ts l p = Some r) \<and>
   (\<forall>p r. parse_exponentiation f ts p = Some r \<longrightarrow> parse_exponentiation f' ts p = Some r) \<and>
   (\<forall>p r. parse_primary f ts p = Some r \<longrightarrow> parse_primary f' ts p = Some r)"
proof (induction f)
  case 0
  show ?case by simp
next
  case (Suc g)
  show ?case
  proof (intro allI impI)
    fix f' assume "Suc g \<le> f'"
    then obtain g' where f': "f' = Suc g'" and le: "g \<le> g'"
      by (cases f') auto
    have A: "parse_addition g ts p = Some r \<Longrightarrow> parse_addition g' ts p = Some r" for p r
      using Suc le by blast
    have ALoop: "addition_loop g ts l p = Some r \<Longrightarrow> addition_loop g' ts l p = Some r"
      for l p r
      using Suc le by blast
    have M: "parse_multiplication g ts p = Some r \<Longrightarrow> parse_multiplication g' ts p = Some r"
      for p r
      using Suc le by blast
    have MLoop: "multiplication_loop g ts l p = Some r \<Longrightarrow>
        multiplication_loop g' ts l p = Some r" for l p r
      using Suc le by blast
    have E: "parse_exponentiation g ts p = Some r \<Longrightarrow> parse_exponentiation g' ts p = Some r"
      for p r
      using Suc le by blast
    have P: "parse_primary g ts p = Some r \<Longrightarrow> parse_primary g' ts p = Some r" for p r
      using Suc le by blast
    have 1: "parse_addition (Suc g) ts p = Some r \<longrightarrow> parse_addition (Suc g') ts p = Some r"
      for p r
      by (auto elim!: and_then_mono intro: M ALoop)
    have 2: "addition_loop (Suc g) ts l p = Some r \<longrightarrow> addition_loop (Suc g') ts l p = Some r"
      for l p r
      by (auto elim!: and_then_mono intro: M ALoop)
    have 3: "parse_multiplication (Suc g) ts p = Some r \<longrightarrow>
        parse_multiplication (Suc g') ts p = Some r" for p r
      by (auto elim!: and_then_mono intro: E MLoop)
    have 4: "multiplication_loop (Suc g) ts l p = Some r \<longrightarrow>
        multiplication_loop (Suc g') ts l p = Some r" for l p r
      by (auto elim!: and_then_mono intro: E MLoop)
    have 5: "parse_exponentiation (Suc g) ts p = Some r \<longrightarrow>
        parse_exponentiation (Suc g') ts p = Some r" for p r
      by (auto elim!: and_then_mono intro: E P split: if_splits)
    have 6: "parse_primary (Suc g) ts p = Some r \<longrightarrow> parse_primary (Suc g') ts p = Some r"
      for p r
      by (auto elim!: and_then_mono intro: A)
    show "(\<forall>p r. parse_addition (Suc g) ts p = Some r \<longrightarrow> parse_addition f' ts p = Some r) \<and>
   (\<forall>l p r. addition_loop (Suc g) ts l p = Some r \<longrightarrow> addition_loop f' ts l p = Some r) \<and>
   (\<forall>p r. parse_multiplication (Suc g) ts p = Some r \<longrightarrow> parse_multiplication f' ts p = Some r) \<and>
   (\<forall>l p r. multiplication_loop (Suc g) ts l p = Some r \<longrightarrow>
      multiplication_loop f' ts l p = Some r) \<and>
   (\<forall>p r. parse_exponentiation (Suc g) ts p = Some r \<longrightarrow> parse_exponentiation f' ts p = Some r) \<and>
   (\<forall>p r. parse_primary (Suc g) ts p = Some r \<longrightarrow> parse_primary f' ts p = Some r)"
      unfolding f' using 1 2 3 4 5 6 by blast
  qed
qed

lemmas addition_mono = parse_fuel_mono [rule_format, THEN conjunct1, rule_format]
lemmas multiplication_mono =
  parse_fuel_mono [rule_format, THEN conjunct2, THEN conjunct2, THEN conjunct1, rule_format]
lemmas exponentiation_mono =
  parse_fuel_mono [rule_format, THEN conjunct2, THEN conjunct2, THEN conjunct2, THEN conjunct2,
    THEN conjunct1, rule_format]
lemmas primary_mono =
  parse_fuel_mono [rule_format, THEN conjunct2, THEN conjunct2, THEN conjunct2, THEN conjunct2,
    THEN conjunct2, rule_format]

subsection \<open>The parser, one node at a time\<close>

declare parse_addition.simps [simp del] addition_loop.simps [simp del]
  parse_multiplication.simps [simp del] multiplication_loop.simps [simp del]
  parse_exponentiation.simps [simp del] parse_primary.simps [simp del]

lemma exponentiation_single:
  assumes "parse_primary f ts p = Some (Inr (x, q))" "\<not> match ts q (OPERATOR ''^'')"
  shows "parse_exponentiation (Suc f) ts p = Some (Inr (x, q))"
  using assms by (simp add: parse_exponentiation.simps and_then_def)

lemma multiplication_single:
  assumes "parse_primary f ts p = Some (Inr (x, q))" "\<not> match ts q (OPERATOR ''^'')"
    "\<not> match ts q (OPERATOR ''*'')" "\<not> match ts q (OPERATOR ''/'')"
  shows "parse_multiplication (Suc (Suc f)) ts p = Some (Inr (x, q))"
  using exponentiation_single[OF assms(1,2)] assms(3,4)
  by (simp add: parse_multiplication.simps multiplication_loop.simps and_then_def)

lemma addition_of_multiplication:
  assumes "parse_multiplication f ts p = Some (Inr (x, q))" "stops ts q"
  shows "parse_addition (Suc f) ts p = Some (Inr (x, q))"
proof -
  obtain g where f: "f = Suc g" using assms(1) by (cases f) (auto simp: parse_multiplication.simps)
  show ?thesis using assms unfolding f
    by (simp add: parse_addition.simps addition_loop.simps and_then_def stops_def)
qed

lemma multiplication_of_exponentiation:
  assumes "parse_exponentiation f ts p = Some (Inr (x, q))" "stops ts q"
  shows "parse_multiplication (Suc f) ts p = Some (Inr (x, q))"
proof -
  obtain g where f: "f = Suc g" using assms(1) by (cases f) (auto simp: parse_exponentiation.simps)
  show ?thesis using assms unfolding f
    by (simp add: parse_multiplication.simps multiplication_loop.simps and_then_def stops_def)
qed

lemma binary_additive:
  assumes l: "parse_primary f1 ts p = Some (Inr (l, q))"
    and op: "match ts q (OPERATOR op)" "op = ''+'' \<or> op = ''-''"
    and r: "parse_primary f2 ts (q + 1) = Some (Inr (r, q'))"
    and stop: "stops ts q'"
  shows "\<exists>f. parse_addition f ts p = Some (Inr (BinaryOp l op r, q'))"
proof -
  define g where "g = max f1 f2"
  have tok: "ts ! q = OPERATOR op" using op(1) by (simp add: match_def)
  have no: "\<not> match ts q (OPERATOR ''^'')" "\<not> match ts q (OPERATOR ''*'')"
    "\<not> match ts q (OPERATOR ''/'')"
    using op by (auto simp: match_def)
  have no': "\<not> match ts q' (OPERATOR ''^'')" "\<not> match ts q' (OPERATOR ''*'')"
    "\<not> match ts q' (OPERATOR ''/'')"
    using stop by (auto simp: stops_def)
  have pl: "parse_primary g ts p = Some (Inr (l, q))"
    using primary_mono[OF _ l, of g] by (simp add: g_def)
  have pr: "parse_primary g ts (q + 1) = Some (Inr (r, q'))"
    using primary_mono[OF _ r, of g] by (simp add: g_def)
  have ml: "parse_multiplication (Suc (Suc (Suc g))) ts p = Some (Inr (l, q))"
    using multiplication_mono[OF _ multiplication_single[OF pl no], of "Suc (Suc (Suc g))"] by simp
  have mr: "parse_multiplication (Suc (Suc g)) ts (q + 1) = Some (Inr (r, q'))"
    using multiplication_single[OF pr no'] .
  have al: "addition_loop (Suc (Suc g)) ts (BinaryOp l op r) q' = Some (Inr (BinaryOp l op r, q'))"
    using stop by (simp add: addition_loop.simps stops_def)
  have "addition_loop (Suc (Suc (Suc g))) ts l q = Some (Inr (BinaryOp l op r, q'))"
    using op mr al tok by (auto simp: addition_loop.simps(2)[of "Suc (Suc g)"] and_then_def)
  then have "parse_addition (Suc (Suc (Suc (Suc g)))) ts p = Some (Inr (BinaryOp l op r, q'))"
    using ml by (simp add: parse_addition.simps and_then_def)
  then show ?thesis ..
qed

lemma binary_multiplicative:
  assumes l: "parse_primary f1 ts p = Some (Inr (l, q))"
    and op: "match ts q (OPERATOR op)" "op = ''*'' \<or> op = ''/''"
    and r: "parse_primary f2 ts (q + 1) = Some (Inr (r, q'))"
    and stop: "stops ts q'"
  shows "\<exists>f. parse_addition f ts p = Some (Inr (BinaryOp l op r, q'))"
proof -
  define g where "g = max f1 f2"
  have tok: "ts ! q = OPERATOR op" using op(1) by (simp add: match_def)
  have no: "\<not> match ts q (OPERATOR ''^'')"
    using op by (auto simp: match_def)
  have no': "\<not> match ts q' (OPERATOR ''^'')" "\<not> match ts q' (OPERATOR ''*'')"
    "\<not> match ts q' (OPERATOR ''/'')"
    using stop by (auto simp: stops_def)
  have pl: "parse_primary g ts p = Some (Inr (l, q))"
    using primary_mono[OF _ l, of g] by (simp add: g_def)
  have pr: "parse_primary g ts (q + 1) = Some (Inr (r, q'))"
    using primary_mono[OF _ r, of g] by (simp add: g_def)
  have el: "parse_exponentiation (Suc (Suc g)) ts p = Some (Inr (l, q))"
    using exponentiation_mono[OF _ exponentiation_single[OF pl no], of "Suc (Suc g)"] by simp
  have er: "parse_exponentiation (Suc g) ts (q + 1) = Some (Inr (r, q'))"
    using exponentiation_single[OF pr no'(1)] .
  have ml: "multiplication_loop (Suc g) ts (BinaryOp l op r) q' = Some (Inr (BinaryOp l op r, q'))"
    using no' by (simp add: multiplication_loop.simps)
  have "multiplication_loop (Suc (Suc g)) ts l q = Some (Inr (BinaryOp l op r, q'))"
    using op er ml tok by (auto simp: multiplication_loop.simps(2)[of "Suc g"] and_then_def)
  then have "parse_multiplication (Suc (Suc (Suc g))) ts p = Some (Inr (BinaryOp l op r, q'))"
    using el by (simp add: parse_multiplication.simps and_then_def)
  from addition_of_multiplication[OF this stop] show ?thesis ..
qed

lemma binary_power:
  assumes l: "parse_primary f1 ts p = Some (Inr (l, q))"
    and op: "match ts q (OPERATOR ''^'')"
    and r: "parse_primary f2 ts (q + 1) = Some (Inr (r, q'))"
    and stop: "stops ts q'"
  shows "\<exists>f. parse_addition f ts p = Some (Inr (BinaryOp l ''^'' r, q'))"
proof -
  define g where "g = max f1 f2"
  have no': "\<not> match ts q' (OPERATOR ''^'')"
    using stop by (auto simp: stops_def)
  have pl: "parse_primary (Suc g) ts p = Some (Inr (l, q))"
    using primary_mono[OF _ l, of "Suc g"] by (simp add: g_def)
  have pr: "parse_primary g ts (q + 1) = Some (Inr (r, q'))"
    using primary_mono[OF _ r, of g] by (simp add: g_def)
  have er: "parse_exponentiation (Suc g) ts (q + 1) = Some (Inr (r, q'))"
    using exponentiation_single[OF pr no'] .
  have "parse_exponentiation (Suc (Suc g)) ts p = Some (Inr (BinaryOp l ''^'' r, q'))"
    using pl op er by (simp add: parse_exponentiation.simps(2)[of "Suc g"] and_then_def)
  from addition_of_multiplication[OF multiplication_of_exponentiation[OF this stop] stop]
  show ?thesis ..
qed

lemma primary_parenthesis:
  assumes "match ts p LPAREN"
    and "parse_addition f ts (p + 1) = Some (Inr (x, q))"
    and "match ts q RPAREN"
  shows "parse_primary (Suc f) ts p = Some (Inr (x, q + 1))"
proof -
  have "\<not> match_NUMBER ts p" "\<not> match_VARIABLE ts p"
    using assms(1) by (auto simp: match_def match_NUMBER_def match_VARIABLE_def)
  then show ?thesis using assms
    by (simp add: parse_primary.simps and_then_def)
qed

subsection \<open>The parser on the tokens of a tree\<close>

lemma tokens_of_BinaryOp:
  "tokens_of (BinaryOp l op r) = operand_tokens l @ OPERATOR op # operand_tokens r"
  by (simp add: operand_tokens_def)

lemma match_at: "match (pre @ tok # post) (length pre) tok' \<longleftrightarrow> tok = tok' \<and> tok \<noteq> EOF"
  by (auto simp: match_def is_at_end_def)

lemma stops_at:
  "post = [] \<or> hd post = RPAREN \<or> hd post = EOF \<Longrightarrow> stops (pre @ post) (length pre)"
  by (cases post) (auto simp: stops_def match_def is_at_end_def)

lemma primary_is_addition:
  assumes "parse_primary f ts p = Some (Inr (x, q))" "stops ts q"
  shows "parse_addition (Suc (Suc (Suc f))) ts p = Some (Inr (x, q))"
proof -
  have "\<not> match ts q (OPERATOR ''^'')" "\<not> match ts q (OPERATOR ''*'')"
    "\<not> match ts q (OPERATOR ''/'')"
    using assms(2) by (auto simp: stops_def)
  from addition_of_multiplication[OF multiplication_single[OF assms(1) this] assms(2)]
  show ?thesis .
qed

lemma parse_tokens_of:
  assumes "known_operators t"
  shows "(post = [] \<or> hd post = RPAREN \<or> hd post = EOF \<longrightarrow>
           (\<exists>f. parse_addition f (pre @ tokens_of t @ post) (length pre) =
                  Some (Inr (t, length pre + length (tokens_of t))))) \<and>
         (\<exists>f. parse_primary f (pre @ operand_tokens t @ post) (length pre) =
                  Some (Inr (t, length pre + length (operand_tokens t))))"
  using assms
proof (induction t arbitrary: pre post)
  case (Number v)
  have p: "parse_primary (Suc 0) (pre @ NUMBER v # post) (length pre)
      = Some (Inr (Number v, length pre + 1))"
    by (simp add: parse_primary.simps match_NUMBER_def is_at_end_def)
  show ?case
    using p primary_is_addition[OF p] stops_at[of post "pre @ [NUMBER v]"]
    by (auto simp: operand_tokens_def)
next
  case (Variable name)
  have p: "parse_primary (Suc 0) (pre @ VARIABLE name # post) (length pre)
      = Some (Inr (Variable name, length pre + 1))"
    by (simp add: parse_primary.simps match_NUMBER_def match_VARIABLE_def is_at_end_def)
  show ?case
    using p primary_is_addition[OF p] stops_at[of post "pre @ [VARIABLE name]"]
    by (auto simp: operand_tokens_def)
next
  case (BinaryOp l op r)
  have kl: "known_operators l" and kr: "known_operators r"
    and op: "op \<in> {''+'', ''-'', ''*'', ''/'', ''^''}"
    using BinaryOp.prems by auto
  have Pl: "\<exists>f. parse_primary f (pre @ operand_tokens l @ post) (length pre) =
        Some (Inr (l, length pre + length (operand_tokens l)))" for pre post
    using BinaryOp.IH(1)[OF kl] by blast
  have Pr: "\<exists>f. parse_primary f (pre @ operand_tokens r @ post) (length pre) =
        Some (Inr (r, length pre + length (operand_tokens r)))" for pre post
    using BinaryOp.IH(2)[OF kr] by blast
  have A: "\<exists>f. parse_addition f (pre @ tokens_of (BinaryOp l op r) @ post) (length pre) =
        Some (Inr (BinaryOp l op r, length pre + length (tokens_of (BinaryOp l op r))))"
    if post: "post = [] \<or> hd post = RPAREN \<or> hd post = EOF" for pre post
  proof -
    define ts where "ts = pre @ operand_tokens l @ OPERATOR op # operand_tokens r @ post"
    define q where "q = length pre + length (operand_tokens l)"
    define q' where "q' = q + 1 + length (operand_tokens r)"
    obtain f1 where f1: "parse_primary f1 ts (length pre) = Some (Inr (l, q))"
      using Pl[of pre "OPERATOR op # operand_tokens r @ post"]
      by (auto simp: ts_def q_def)
    obtain f2 where f2: "parse_primary f2 ts (q + 1) = Some (Inr (r, q'))"
      using Pr[of "pre @ operand_tokens l @ [OPERATOR op]" post]
      by (auto simp: ts_def q_def q'_def)
    have m: "match ts q (OPERATOR op)"
      using match_at[of "pre @ operand_tokens l" "OPERATOR op" "operand_tokens r @ post"
          "OPERATOR op"]
      by (simp add: ts_def q_def)
    have s: "stops ts q'"
      using stops_at[OF post, of "pre @ operand_tokens l @ OPERATOR op # operand_tokens r"]
      by (simp add: ts_def q_def q'_def add.assoc)
    have "\<exists>f. parse_addition f ts (length pre) = Some (Inr (BinaryOp l op r, q'))"
      using op binary_additive[OF f1 m _ f2 s] binary_multiplicative[OF f1 m _ f2 s]
        binary_power[OF f1 _ f2 s] m
      by auto
    then show ?thesis
      by (simp add: ts_def q_def q'_def tokens_of_BinaryOp add.assoc del: tokens_of.simps)
  qed
  have P: "\<exists>f. parse_primary f (pre @ operand_tokens (BinaryOp l op r) @ post) (length pre) =
        Some (Inr (BinaryOp l op r, length pre + length (operand_tokens (BinaryOp l op r))))"
  proof -
    define ts where "ts = pre @ LPAREN # tokens_of (BinaryOp l op r) @ RPAREN # post"
    define q where "q = length pre + 1 + length (tokens_of (BinaryOp l op r))"
    obtain f where f: "parse_addition f ts (length pre + 1) = Some (Inr (BinaryOp l op r, q))"
      using A[of "RPAREN # post" "pre @ [LPAREN]"]
      by (auto simp: ts_def q_def simp del: tokens_of.simps)
    have m1: "match ts (length pre) LPAREN"
      using match_at[of pre LPAREN _ LPAREN] by (simp add: ts_def)
    have m2: "match ts q RPAREN"
      using match_at[of "pre @ LPAREN # tokens_of (BinaryOp l op r)" RPAREN post RPAREN]
      by (simp add: ts_def q_def del: tokens_of.simps)
    from primary_parenthesis[OF m1 f m2] show ?thesis
      by (auto simp: ts_def q_def operand_tokens_def simp del: tokens_of.simps)
  qed
  show ?case using A P by blast
qed

lemma parse_tokens_of_EOF:
  assumes "known_operators t"
  shows "parse (tokens_of t @ [EOF]) = Some (Inr t)"
proof -
  define ts where "ts = tokens_of t @ [EOF]"
  obtain f where f: "parse_addition f ts 0 = Some (Inr (t, length (tokens_of t)))"
    using parse_tokens_of[OF assms, of "[EOF]" "[]"] by (auto simp: ts_def)
  define F where "F = 4 * length ts + 4"
  have "parse_addition F ts 0 \<noteq> None"
    using parse_fuel[of ts F] by (simp add: F_def)
  then obtain r where r: "parse_addition F ts 0 = Some r" by auto
  have "r = Inr (t, length (tokens_of t))"
  proof (cases "f \<le> F")
    case True
    from addition_mono[OF True f] r show ?thesis by simp
  next
    case False
    then have "F \<le> f" by simp
    from addition_mono[OF this r] f show ?thesis by simp
  qed
  then show ?thesis
    using r by (simp add: parse_def ts_def F_def is_at_end_def nth_append)
qed

subsection \<open>The tokenizer on the display string of a tree\<close>

lemma to_display_string_BinaryOp:
  "to_display_string sv (BinaryOp l op r) =
     operand_string sv l @ '' '' @ op @ '' '' @ operand_string sv r"
  by (simp add: operand_string_def Let_def)

lemma digit_or_dot_not_space: "digit_or_dot c \<Longrightarrow> \<not> isspace c"
  by (auto simp: digit_or_dot_def isdigit_def isspace_def Let_def)

lemma digit_or_dot_not_minus: "digit_or_dot c \<Longrightarrow> c \<noteq> CHR ''-''"
  by (auto simp: digit_or_dot_def isdigit_def Let_def)

lemma isalpha_not_space: "isalpha c \<Longrightarrow> \<not> isspace c"
  by (auto simp: isalpha_def isspace_def Let_def)

lemma isalpha_not_digit: "isalpha c \<Longrightarrow> \<not> digit_or_dot c"
  by (auto simp: isalpha_def digit_or_dot_def isdigit_def Let_def)

lemma tokenize_number:
  assumes "list_all digit_or_dot s" "py_float s = Some v"
    and "after = [] \<or> \<not> digit_or_dot (hd after)"
  shows "tokenize_loop (s @ after) pos acc = tokenize_loop after (pos + length s) (acc @ [NUMBER v])"
proof -
  obtain c cs where s: "s = c # cs" using assms(2) by (cases s) auto
  have c: "digit_or_dot c" and cs: "list_all digit_or_dot cs" using assms(1) s by auto
  have tw: "takeWhile digit_or_dot (cs @ after) = cs"
    using cs assms(3) by (cases after) (auto simp: list_all_iff)
  have dw: "dropWhile digit_or_dot (cs @ after) = after"
    using cs assms(3) by (cases after) (auto simp: list_all_iff)
  have "parse_number (c # cs @ after) pos = Inr (NUMBER v, after, pos + length s)"
    using c digit_or_dot_not_minus[OF c] assms(2) tw dw
    by (simp add: parse_number_def s)
  then show ?thesis
    using c digit_or_dot_not_space[OF c] by (simp add: s digit_or_dot_def)
qed


lemma tokenize_variable:
  assumes "isalpha c"
  shows "tokenize_loop (c # after) pos acc = tokenize_loop after (pos + 1) (acc @ [VARIABLE [c]])"
  using assms isalpha_not_space[OF assms] isalpha_not_digit[OF assms]
  by (simp add: parse_variable_def digit_or_dot_def)

lemma tokenize_space:
  "tokenize_loop (CHR '' '' # after) pos acc = tokenize_loop after (pos + 1) acc"
  by (simp add: isspace_def)

lemma tokenize_lparen:
  "tokenize_loop (CHR ''('' # after) pos acc = tokenize_loop after (pos + 1) (acc @ [LPAREN])"
  by (simp add: isspace_def isdigit_def isalpha_def)

lemma tokenize_rparen:
  "tokenize_loop (CHR '')'' # after) pos acc = tokenize_loop after (pos + 1) (acc @ [RPAREN])"
  by (simp add: isspace_def isdigit_def isalpha_def)

lemma tokenize_operator:
  assumes "op \<in> {''+'', ''-'', ''*'', ''/'', ''^''}"
  shows "tokenize_loop (op @ after) pos acc = tokenize_loop after (pos + 1) (acc @ [OPERATOR op])"
  using assms by (auto simp: isspace_def isdigit_def isalpha_def parse_operator_def)

lemma tokenize_display:
  assumes "displayable sv t" "after = [] \<or> hd after = CHR '' '' \<or> hd after = CHR '')''"
  shows "\<exists>pos'. tokenize_loop (to_display_string sv t @ after) pos acc =
            tokenize_loop after pos' (acc @ tokens_of t)"
  using assms
proof (induction t arbitrary: after pos acc)
  case (Number v)
  have "after = [] \<or> \<not> digit_or_dot (hd after)"
    using Number.prems(2) by (auto simp: digit_or_dot_def isdigit_def)
  from tokenize_number[OF _ _ this, of "sv v" v pos acc] Number.prems(1)
  show ?case by auto
next
  case (Variable name)
  then obtain c where "name = [c]" "isalpha c"
    by (auto split: list.splits)
  then show ?case using tokenize_variable[of c after pos acc] by auto
next
  case (BinaryOp l op r)
  have dl: "displayable sv l" and dr: "displayable sv r"
    and op: "op \<in> {''+'', ''-'', ''*'', ''/'', ''^''}"
    using BinaryOp.prems(1) by auto
  have operand: "\<exists>pos'. tokenize_loop (operand_string sv x @ after) pos acc =
            tokenize_loop after pos' (acc @ operand_tokens x)"
    if ih: "\<And>after pos acc. after = [] \<or> hd after = CHR '' '' \<or> hd after = CHR '')'' \<Longrightarrow>
          \<exists>pos'. tokenize_loop (to_display_string sv x @ after) pos acc =
            tokenize_loop after pos' (acc @ tokens_of x)"
      and after: "after = [] \<or> hd after = CHR '' '' \<or> hd after = CHR '')''"
    for x after pos acc
  proof (cases "is_BinaryOp x")
    case True
    obtain pos' where "tokenize_loop (to_display_string sv x @ CHR '')'' # after) (pos + 1)
        (acc @ [LPAREN]) = tokenize_loop (CHR '')'' # after) pos' ((acc @ [LPAREN]) @ tokens_of x)"
      using ih[of "CHR '')'' # after" "pos + 1" "acc @ [LPAREN]"] by auto
    then show ?thesis
      using True by (auto simp: operand_string_def operand_tokens_def tokenize_lparen tokenize_rparen
          simp del: tokenize_loop.simps)
  next
    case False
    then show ?thesis using ih[OF after, of pos acc]
      by (simp add: operand_string_def operand_tokens_def)
  qed
  obtain p1 where p1: "tokenize_loop (operand_string sv l @ '' '' @ op @ '' '' @ operand_string sv r @ after)
      pos acc = tokenize_loop ('' '' @ op @ '' '' @ operand_string sv r @ after) p1
        (acc @ operand_tokens l)"
    using operand[of l "'' '' @ op @ '' '' @ operand_string sv r @ after" pos acc]
      BinaryOp.IH(1)[OF dl] by auto
  obtain p2 where p2: "tokenize_loop (operand_string sv r @ after) (p1 + 1 + 1 + 1)
      (acc @ operand_tokens l @ [OPERATOR op]) = tokenize_loop after p2
        ((acc @ operand_tokens l @ [OPERATOR op]) @ operand_tokens r)"
    using operand[of r after "p1 + 1 + 1 + 1" "acc @ operand_tokens l @ [OPERATOR op]"]
      BinaryOp.IH(2)[OF dr] BinaryOp.prems(2) by auto
  have "tokenize_loop ('' '' @ op @ '' '' @ operand_string sv r @ after) p1 (acc @ operand_tokens l)
      = tokenize_loop (operand_string sv r @ after) (p1 + 1 + 1 + 1)
          (acc @ operand_tokens l @ [OPERATOR op])"
    using tokenize_operator[OF op, of "CHR '' '' # operand_string sv r @ after" "p1 + 1"
        "acc @ operand_tokens l"]
    by (simp add: tokenize_space del: tokenize_loop.simps)
  then show ?case
    using p1 p2
    by (auto simp: to_display_string_BinaryOp tokens_of_BinaryOp
        simp del: tokenize_loop.simps to_display_string.simps tokens_of.simps)
qed

lemma strip_id:
  assumes "s \<noteq> []" "\<not> isspace (hd s)" "\<not> isspace (last s)"
  shows "strip s = s"
proof -
  have 1: "dropWhile isspace s = s" using assms(1,2) by (cases s) auto
  have "rev s \<noteq> []" "\<not> isspace (hd (rev s))"
    using assms(1,3) by (auto simp: hd_rev)
  then have "dropWhile isspace (rev s) = rev s" by (cases "rev s") auto
  then show ?thesis using 1 by (simp add: strip_def)
qed

lemma display_ends:
  "displayable sv t \<Longrightarrow>
   to_display_string sv t \<noteq> [] \<and> \<not> isspace (hd (to_display_string sv t)) \<and>
   \<not> isspace (last (to_display_string sv t))"
proof (induction t)
  case (Number v)
  then have ne: "sv v \<noteq> []" and all: "list_all digit_or_dot (sv v)" by auto
  then have "digit_or_dot (hd (sv v))" "digit_or_dot (last (sv v))"
    by (auto simp: list_all_iff)
  then show ?case using ne by (auto dest: digit_or_dot_not_space)
next
  case (Variable name)
  then show ?case by (auto split: list.splits dest: isalpha_not_space)
next
  case (BinaryOp l op r)
  have ol: "operand_string sv l \<noteq> [] \<and> \<not> isspace (hd (operand_string sv l))"
    using BinaryOp by (auto simp: operand_string_def isspace_def)
  have orr: "operand_string sv r \<noteq> [] \<and> \<not> isspace (last (operand_string sv r))"
    using BinaryOp by (auto simp: operand_string_def isspace_def)
  show ?case
    using ol orr
    by (auto simp: to_display_string_BinaryOp simp del: to_display_string.simps)
qed

lemma displayable_known_operators: "displayable sv t \<Longrightarrow> known_operators t"
  by (induction t) auto

lemma tokenize_to_display_string:
  assumes "displayable sv t"
  shows "tokenize (to_display_string sv t) = Inr (tokens_of t @ [EOF])"
proof -
  have "strip (to_display_string sv t) = to_display_string sv t"
    using display_ends[OF assms] by (intro strip_id) auto
  moreover obtain pos' where "tokenize_loop (to_display_string sv t @ []) 0 [] =
            tokenize_loop [] pos' ([] @ tokens_of t)"
    using tokenize_display[OF assms, of "[]" 0 "[]"] by blast
  ultimately show ?thesis by (simp add: tokenize_def)
qed

text \<open>
  Claim C8, as amended. A tree built from \<open>Number\<close>, \<open>Variable\<close> and the operators
  (\<open>+\<close>, \<open>-\<close>, \<open>*\<close>, and also \<open>/\<close> and \<open>^\<close>), in which every variable name is one
  letter and every number is displayed as digits with at most one dot, without sign or
  exponent, that \<open>float\<close> reads back as the same number, is parsed back from its
  display string: \<open>parse_expression\<close> returns the very same tree, which therefore
  evaluates as the tree does under any bindings.
\<close>

theorem display_parse_round_trip:
  assumes "displayable str_value t"
  shows "\<exists>t'. parse_expression (to_display_string str_value t) = Some (Inr t') \<and>
              t' = t \<and> evaluate t' variables = evaluate t variables"
  using tokenize_to_display_string[OF assms]
    parse_tokens_of_EOF[OF displayable_known_operators[OF assms]]
  by (simp add: parse_expression_def)

theorem display_parse_round_trip_witness:
  "displayable python_str_sample
     (BinaryOp (BinaryOp (Variable ''x'') ''-'' (Number 2)) ''*'' (Number (1 / 2))) \<and>
   parse_expression
     (to_display_string python_str_sample
        (BinaryOp (BinaryOp (Variable ''x'') ''-'' (Number 2)) ''*'' (Number (1 / 2))))
     = Some (Inr (BinaryOp (BinaryOp (Variable ''x'') ''-'' (Number 2)) ''*''
                    (Number (1 / 2))))"
proof -
  have d: "displayable python_str_sample
     (BinaryOp (BinaryOp (Variable ''x'') ''-'' (Number 2)) ''*'' (Number (1 / 2)))"
    by (simp add: python_str_sample_def tokenizer_defs)
  show ?thesis
    using d display_parse_round_trip [OF d] by simp
qed

end
